theory Spec2Isabelle
  imports Complex_Main
begin

section \<open>Python values\<close>

text \<open>
  The orchestration core handles provider results as untyped dictionaries
  (\<^verbatim>\<open>Dict[str, Any]\<close>), parsed from JSON. \<open>pyval\<close> is the universe of such values.
  A dictionary keeps its items in insertion order, so it is an association list;
  lookups go through \<open>map_of\<close>.

  Python floats are idealised as real numbers: arithmetic is exact, and there is
  neither overflow nor \<^verbatim>\<open>inf\<close>/\<^verbatim>\<open>nan\<close>.
\<close>

datatype pyval =
    PNone
  | PBool bool
  | PInt int
  | PFloat real
  | PStr string
  | PList "pyval list"
  | PDict "(string \<times> pyval) list"

datatype pyerror = TypeError | ValueError | AttributeError

text \<open>\<^verbatim>\<open>d.get(key, default)\<close> on a dictionary.\<close>

definition dict_get :: "(string \<times> pyval) list \<Rightarrow> string \<Rightarrow> pyval \<Rightarrow> pyval" where
  "dict_get d k dflt = (case map_of d k of None \<Rightarrow> dflt | Some v \<Rightarrow> v)"

text \<open>
  Two services of the language runtime are used but not defined by this
  repository: the parser behind \<^verbatim>\<open>float(s)\<close> for a string \<open>s\<close> (\<open>None\<close> where it
  raises \<^verbatim>\<open>ValueError\<close>), and the text that an f-string puts for a value. They are
  taken as given.
\<close>

record python =
  float_of_str :: "string \<Rightarrow> real option"
  format_value :: "pyval \<Rightarrow> string"

text \<open>
  The built-in \<^verbatim>\<open>float(x)\<close>. Numbers and booleans convert, a string is parsed,
  \<^verbatim>\<open>None\<close> and containers raise \<^verbatim>\<open>TypeError\<close>.
\<close>

fun py_float :: "python \<Rightarrow> pyval \<Rightarrow> pyerror + real" where
  "py_float py (PFloat x) = Inr x"
| "py_float py (PInt i) = Inr (of_int i)"
| "py_float py (PBool b) = Inr (if b then 1 else 0)"
| "py_float py (PStr s) = (case float_of_str py s of None \<Rightarrow> Inl ValueError | Some x \<Rightarrow> Inr x)"
| "py_float py PNone = Inl TypeError"
| "py_float py (PList xs) = Inl TypeError"
| "py_float py (PDict d) = Inl TypeError"

text \<open>
  \<^verbatim>\<open>round(x, 2)\<close> on a float: the nearest multiple of one hundredth, an exact tie
  going to the even neighbour.
\<close>

definition py_round2 :: "real \<Rightarrow> real" where
  "py_round2 x =
     (let y = x * 100; f = \<lfloor>y\<rfloor>; d = y - of_int f
      in of_int (if d < 1 / 2 then f
                 else if 1 / 2 < d then f + 1
                 else if even f then f else f + 1) / 100)"

section \<open>Synthesizer: \<^verbatim>\<open>MasterAgent.synthesize_results\<close>\<close>

type_synonym results = "string \<rightharpoonup> pyval"

text \<open>\<^verbatim>\<open>results.get(key, default)\<close> on the top-level dictionary.\<close>

definition results_get :: "results \<Rightarrow> string \<Rightarrow> pyval \<Rightarrow> pyval" where
  "results_get r k dflt = (case r k of None \<Rightarrow> dflt | Some v \<Rightarrow> v)"

text \<open>The weight table, a local of \<^verbatim>\<open>synthesize_results\<close>, in its source order.\<close>

definition weights :: "(string \<times> real) list" where
  "weights =
     [(''patent_analysis'', 0.25),
      (''clinical_analysis'', 0.20),
      (''market_analysis'', 0.20),
      (''web_analysis'', 0.15),
      (''exim_analysis'', 0.10),
      (''internal_analysis'', 0.10)]"

text \<open>
  The accumulation loop
  \<^verbatim>\<open>
  for agent, weight in weights.items():
      result = all_agent_results.get(agent, {})
      if isinstance(result, dict):
          conf = result.get("confidence", 0.0)
          overall_confidence += float(conf) * weight
  \<close>
  with the running total as accumulator. A failing \<^verbatim>\<open>float(conf)\<close> leaves the loop
  with its exception.
\<close>

fun accumulate ::
  "python \<Rightarrow> results \<Rightarrow> (string \<times> real) list \<Rightarrow> real \<Rightarrow> pyerror + real"
where
  "accumulate py r [] acc = Inr acc"
| "accumulate py r ((agent, weight) # ws) acc =
     (case results_get r agent (PDict []) of
        PDict result \<Rightarrow>
          (case py_float py (dict_get result ''confidence'' (PFloat 0.0)) of
             Inl e \<Rightarrow> Inl e
           | Inr conf \<Rightarrow> accumulate py r ws (acc + conf * weight))
      | _ \<Rightarrow> accumulate py r ws acc)"

text \<open>The local \<^verbatim>\<open>overall_confidence\<close> once the loop is done, before any rounding.\<close>

definition weighted_confidence :: "python \<Rightarrow> results \<Rightarrow> pyerror + real" where
  "weighted_confidence py r = accumulate py r weights 0.0"

text \<open>The \<^verbatim>\<open>if\<close>/\<^verbatim>\<open>elif\<close>/\<^verbatim>\<open>else\<close> chain that picks the recommendation.\<close>

definition recommend :: "real \<Rightarrow> string" where
  "recommend overall =
     (if overall \<ge> 0.75 then ''PROCEED''
      else if overall \<ge> 0.5 then ''CAUTION''
      else ''REJECT'')"

text \<open>
  The lists \<^verbatim>\<open>key_factors\<close> and \<^verbatim>\<open>risks\<close>: a line each for the patent, the
  clinical and the market result when it is a dictionary, and a risk when the
  patent result's \<^verbatim>\<open>fto_status\<close> equals \<^verbatim>\<open>"Risk"\<close>.
\<close>

definition extract_key_factors :: "python \<Rightarrow> results \<Rightarrow> string list" where
  "extract_key_factors py r =
     (case results_get r ''patent_analysis'' (PDict []) of
        PDict patent \<Rightarrow>
          [''Patent status: '' @ format_value py (dict_get patent ''patent_status'' (PStr ''N/A''))]
      | _ \<Rightarrow> [])
     @ (case results_get r ''clinical_analysis'' (PDict []) of
        PDict clinical \<Rightarrow>
          [''Active clinical trials: '' @ format_value py (dict_get clinical ''active_trials'' (PInt 0))]
      | _ \<Rightarrow> [])
     @ (case results_get r ''market_analysis'' (PDict []) of
        PDict market \<Rightarrow>
          [''Market opportunity score: ''
             @ format_value py (dict_get market ''opportunity_score'' (PStr ''N/A''))]
      | _ \<Rightarrow> [])"

definition extract_risks :: "results \<Rightarrow> string list" where
  "extract_risks r =
     (case results_get r ''patent_analysis'' (PDict []) of
        PDict patent \<Rightarrow>
          (if dict_get patent ''fto_status'' PNone = PStr ''Risk''
           then [''Patent infringement risk detected''] else [])
      | _ \<Rightarrow> [])"

text \<open>The returned dictionary, as a record.\<close>

record synthesis =
  overall_confidence :: real
  recommendation :: string
  key_factors :: "string list"
  risks :: "string list"
  next_steps :: string

definition synthesize_results :: "python \<Rightarrow> results \<Rightarrow> pyerror + synthesis" where
  "synthesize_results py all_agent_results =
     (case weighted_confidence py all_agent_results of
        Inl e \<Rightarrow> Inl e
      | Inr overall \<Rightarrow>
          (let rec = recommend overall;
               rs = extract_risks all_agent_results
           in Inr \<lparr> overall_confidence = py_round2 overall,
                    recommendation = rec,
                    key_factors = extract_key_factors py all_agent_results,
                    risks = (if rs \<noteq> [] then rs else [''No major risks identified'']),
                    next_steps = (if rec = ''PROCEED'' then ''Proceed to feasibility study''
                                  else ''Further analysis required'') \<rparr>))"


subsection \<open>The aggregation as the specification words it\<close>

text \<open>
  The confidence a capability contributes: that of \<open>results[name]\<close>, and zero when the
  name is absent or its result carries no confidence.
\<close>

definition stated_confidence :: "results \<Rightarrow> string \<Rightarrow> real" where
  "stated_confidence r name =
     (case r name of
        Some (PDict d) \<Rightarrow>
          (case map_of d ''confidence'' of
             Some (PFloat x) \<Rightarrow> x
           | Some (PInt i) \<Rightarrow> of_int i
           | Some (PBool b) \<Rightarrow> (if b then 1 else 0)
           | _ \<Rightarrow> 0)
      | _ \<Rightarrow> 0)"

definition is_number :: "pyval \<Rightarrow> bool" where
  "is_number v = (case v of PFloat x \<Rightarrow> True | PInt i \<Rightarrow> True | PBool b \<Rightarrow> True | _ \<Rightarrow> False)"

text \<open>
  The capability contract: a result that populates \<^verbatim>\<open>confidence\<close> populates it with
  a number.
\<close>

definition conf_numeric :: "results \<Rightarrow> string \<Rightarrow> bool" where
  "conf_numeric r name =
     (case r name of
        Some (PDict d) \<Rightarrow> (case map_of d ''confidence'' of None \<Rightarrow> True | Some c \<Rightarrow> is_number c)
      | _ \<Rightarrow> True)"

definition well_typed :: "results \<Rightarrow> bool" where
  "well_typed r = list_all (conf_numeric r) (map fst weights)"

text \<open>
  A runtime for the examples, none of which has a string for a confidence.
\<close>

definition plain_python :: python where
  "plain_python = \<lparr> float_of_str = (\<lambda>s. None), format_value = (\<lambda>v. ''-'') \<rparr>"

text \<open>Every weighted capability reporting the same confidence \<open>c\<close>.\<close>

definition uniform_results :: "real \<Rightarrow> results" where
  "uniform_results c =
     (\<lambda>name. if name \<in> set (map fst weights)
              then Some (PDict [(''confidence'', PFloat c)]) else None)"

text \<open>
  A mixed input: one capability absent, one without a confidence, one that is
  not a dictionary.
\<close>

definition partial_results :: results where
  "partial_results =
     map_of [(''patent_analysis'', PDict [(''patent_status'', PStr ''Active''), (''confidence'', PFloat 0.9)]),
             (''clinical_analysis'', PDict [(''active_trials'', PInt 3)]),
             (''web_analysis'', PNone),
             (''exim_analysis'', PDict [(''confidence'', PInt 1)]),
             (''internal_analysis'', PDict [(''confidence'', PFloat 0.42)])]"

section \<open>Conflict detector: \<^verbatim>\<open>ConflictDetector.detect_conflicts\<close>\<close>

text \<open>Truth value of a Python object, as \<^verbatim>\<open>if v["value"]\<close> tests it.\<close>

fun py_truthy :: "pyval \<Rightarrow> bool" where
  "py_truthy PNone = False"
| "py_truthy (PBool b) = b"
| "py_truthy (PInt i) = (i \<noteq> 0)"
| "py_truthy (PFloat x) = (x \<noteq> 0)"
| "py_truthy (PStr s) = (s \<noteq> [])"
| "py_truthy (PList xs) = (xs \<noteq> [])"
| "py_truthy (PDict d) = (d \<noteq> [])"

text \<open>
  Membership in a Python \<^verbatim>\<open>set\<close> goes by hash and equality: numbers and booleans
  compare by value (\<^verbatim>\<open>1 == 1.0 == True\<close>), strings by content, and lists and
  dictionaries cannot be hashed at all.
\<close>

datatype hkey = HNone | HNum real | HStr string

fun py_hash_key :: "pyval \<Rightarrow> pyerror + hkey" where
  "py_hash_key PNone = Inr HNone"
| "py_hash_key (PBool b) = Inr (HNum (if b then 1 else 0))"
| "py_hash_key (PInt i) = Inr (HNum (of_int i))"
| "py_hash_key (PFloat x) = Inr (HNum x)"
| "py_hash_key (PStr s) = Inr (HStr s)"
| "py_hash_key (PList xs) = Inl TypeError"
| "py_hash_key (PDict d) = Inl TypeError"

text \<open>
  What a \<^verbatim>\<open>for\<close> loop iterates over: the items of a list, the characters of a
  string, the keys of a dictionary; anything else is not iterable.
\<close>

fun py_iter :: "pyval \<Rightarrow> pyerror + pyval list" where
  "py_iter (PList xs) = Inr xs"
| "py_iter (PStr s) = Inr (map (\<lambda>c. PStr [c]) s)"
| "py_iter (PDict d) = Inr (map (\<lambda>kv. PStr (fst kv)) d)"
| "py_iter PNone = Inl TypeError"
| "py_iter (PBool b) = Inl TypeError"
| "py_iter (PInt i) = Inl TypeError"
| "py_iter (PFloat x) = Inl TypeError"

record source_entry =
  entry_source :: pyval
  entry_value :: pyval
  entry_confidence :: pyval

record conflict_entry =
  field :: string
  sources :: "source_entry list"
  resolution :: string

record conflict_report =
  conflict_detected :: bool
  conflicts :: "conflict_entry list"

text \<open>
  The loop over \<^verbatim>\<open>patent_data["source_data"]\<close>: each entry is asked with
  \<^verbatim>\<open>.get\<close>, which only a dictionary has.
\<close>

fun collect_sources :: "pyval list \<Rightarrow> pyerror + source_entry list" where
  "collect_sources [] = Inr []"
| "collect_sources (entry # es) =
     (case entry of
        PDict e \<Rightarrow>
          (case collect_sources es of
             Inl x \<Rightarrow> Inl x
           | Inr vs \<Rightarrow>
               Inr (\<lparr> entry_source = dict_get e ''source'' (PStr ''unknown''),
                      entry_value = dict_get e ''expiry_date'' PNone,
                      entry_confidence = dict_get e ''confidence'' (PInt 0) \<rparr> # vs))
      | _ \<Rightarrow> Inl AttributeError)"

fun hash_all :: "pyval list \<Rightarrow> pyerror + hkey list" where
  "hash_all [] = Inr []"
| "hash_all (v # vs) =
     (case py_hash_key v of
        Inl x \<Rightarrow> Inl x
      | Inr k \<Rightarrow> (case hash_all vs of Inl x \<Rightarrow> Inl x | Inr ks \<Rightarrow> Inr (k # ks)))"

text \<open>\<^verbatim>\<open>set([v["value"] for v in expiry_values if v["value"]])\<close>\<close>

definition unique_values :: "source_entry list \<Rightarrow> pyerror + hkey set" where
  "unique_values expiry_values =
     (case hash_all (filter py_truthy (map entry_value expiry_values)) of
        Inl x \<Rightarrow> Inl x
      | Inr ks \<Rightarrow> Inr (set ks))"

definition detect_conflicts :: "results \<Rightarrow> pyerror + conflict_report" where
  "detect_conflicts results_dict =
     (case results_get results_dict ''patent_analysis'' (PDict []) of
        PDict patent_data \<Rightarrow>
          (case (case map_of patent_data ''source_data'' of
                   Some source_data \<Rightarrow>
                     (case py_iter source_data of
                        Inl x \<Rightarrow> Inl x
                      | Inr entries \<Rightarrow> collect_sources entries)
                 | None \<Rightarrow>
                     Inr [\<lparr> entry_source = PStr ''Generic'',
                            entry_value = dict_get patent_data ''expiry_date'' PNone,
                            entry_confidence = dict_get patent_data ''confidence'' (PInt 0) \<rparr>]) of
             Inl x \<Rightarrow> Inl x
           | Inr expiry_values \<Rightarrow>
               (case unique_values expiry_values of
                  Inl x \<Rightarrow> Inl x
                | Inr uniq \<Rightarrow>
                    (if card uniq > 1
                     then Inr \<lparr> conflict_detected = True,
                                conflicts =
                                  [\<lparr> field = ''patent_expiry'',
                                      sources = expiry_values,
                                      resolution = ''Use highest confidence source with flag for review'' \<rparr>] \<rparr>
                     else Inr \<lparr> conflict_detected = False, conflicts = [] \<rparr>)))
      | _ \<Rightarrow> Inr \<lparr> conflict_detected = False, conflicts = [] \<rparr>)"

subsection \<open>The conflict rule as the specification words it\<close>













section \<open>Progress tracker: \<^verbatim>\<open>MasterAgent.progress\<close>\<close>

text \<open>
  The four status strings written by the orchestrator. The progress dictionary is
  an object on the heap: \<^verbatim>\<open>self.progress\<close> holds a reference to it, and whoever is
  handed that reference reads the same object.
\<close>

datatype status = Pending | Running | Complete | Failed

type_synonym ref = nat

record store =
  cells :: "ref \<Rightarrow> (string \<rightharpoonup> status)"
  next_ref :: ref

definition empty_store :: store where
  "empty_store = \<lparr> cells = (\<lambda>a. Map.empty), next_ref = 0 \<rparr>"

text \<open>What the holder of a reference sees in a given store.\<close>

definition read_dict :: "store \<Rightarrow> ref \<Rightarrow> (string \<rightharpoonup> status)" where
  "read_dict s a = cells s a"

text \<open>The keys of \<^verbatim>\<open>self.agents\<close>, in insertion order.\<close>

definition agent_names :: "string list" where
  "agent_names =
     [''patent_analysis'', ''clinical_analysis'', ''market_analysis'',
      ''web_analysis'', ''exim_analysis'', ''internal_analysis'']"

record master_agent =
  progress :: ref

text \<open>
  \<^verbatim>\<open>MasterAgent.__init__\<close>: a new dictionary with every agent \<^verbatim>\<open>"Pending"\<close>.
\<close>

definition new_master_agent :: "store \<Rightarrow> master_agent \<times> store" where
  "new_master_agent s =
     (\<lparr> progress = next_ref s \<rparr>,
      s\<lparr> cells := (cells s)(next_ref s := map_of (map (\<lambda>name. (name, Pending)) agent_names)),
         next_ref := Suc (next_ref s) \<rparr>)"

text \<open>\<^verbatim>\<open>return self.progress\<close>: the reference itself.\<close>

definition get_analysis_progress :: "master_agent \<Rightarrow> ref" where
  "get_analysis_progress self = progress self"

text \<open>The assignment \<^verbatim>\<open>self.progress[name] = st\<close>.\<close>

definition set_progress :: "master_agent \<Rightarrow> string \<Rightarrow> status \<Rightarrow> store \<Rightarrow> store" where
  "set_progress self name st s =
     s\<lparr> cells := (cells s)(progress self := (cells s (progress self))(name \<mapsto> st)) \<rparr>"

section \<open>Task dispatcher\<close>

text \<open>
  A provider's blocking \<^verbatim>\<open>analyze\<close> call either ends after some seconds, by
  returning a value or by raising, or never ends. \<open>RaisesTimeout\<close> is
  \<^verbatim>\<open>asyncio.TimeoutError\<close>, \<open>Raises msg\<close> any other \<^verbatim>\<open>Exception\<close> with
  \<^verbatim>\<open>str(e) == msg\<close>.
\<close>

datatype outcome = Returns pyval | RaisesTimeout | Raises string

datatype behaviour = Finishes real outcome | Hangs

text \<open>
  \<^verbatim>\<open>BaseAgent.analyze_async\<close> awaits the executor future under
  \<^verbatim>\<open>asyncio.wait_for(..., timeout=30)\<close>. \<open>None\<close> stands for an await that never
  completes.
\<close>

definition base_analyze_async :: "behaviour \<Rightarrow> outcome option" where
  "base_analyze_async b =
     (case b of
        Finishes t out \<Rightarrow> Some (if t \<le> 30 then out else RaisesTimeout)
      | Hangs \<Rightarrow> Some RaisesTimeout)"

text \<open>
  Each of the six registered agent classes overrides \<^verbatim>\<open>analyze_async\<close> with
  \<^verbatim>\<open>return await loop.run_in_executor(None, self.analyze, ...)\<close>, and this is the
  method the orchestrator calls.
\<close>

definition analyze_async :: "behaviour \<Rightarrow> outcome option" where
  "analyze_async b =
     (case b of
        Finishes t out \<Rightarrow> Some out
      | Hangs \<Rightarrow> None)"

text \<open>
  \<^verbatim>\<open>MasterAgent._run_agent_async\<close>, cut at its one suspension point: the part
  before the \<^verbatim>\<open>await\<close>, and the part after it, by the way the await ends. What a
  task hands to \<^verbatim>\<open>gather\<close> is a value (\<open>Inr\<close>) or an exception that left the
  coroutine (\<open>Inl\<close>, with its message).
\<close>

definition run_agent_launch :: "master_agent \<Rightarrow> string \<Rightarrow> store \<Rightarrow> store" where
  "run_agent_launch self name s = set_progress self name Running s"

fun run_agent_settle ::
  "master_agent \<Rightarrow> string \<Rightarrow> outcome \<Rightarrow> store \<Rightarrow> (string + pyval) \<times> store"
where
  "run_agent_settle self name (Returns result) s =
     (Inr result, set_progress self name Complete s)"
| "run_agent_settle self name RaisesTimeout s =
     (Inr (PDict [(''error'', PStr ''Timeout''), (''confidence'', PFloat 0.0)]),
      set_progress self name Failed s)"
| "run_agent_settle self name (Raises e) s =
     (Inr (PDict [(''error'', PStr e), (''confidence'', PFloat 0.0)]),
      set_progress self name Failed s)"

text \<open>
  The tasks run interleaved on one event loop, and a task is only ever left at its
  \<^verbatim>\<open>await\<close>. So a run is a sequence of events, each the launch of a task not yet
  started or the settlement of one that is waiting.
\<close>

datatype event = Launch string | Settle string

datatype task_pc = NotStarted | Awaiting | Done

record run_state =
  mem :: store
  pc :: "string \<Rightarrow> task_pc"
  settled :: "string \<rightharpoonup> (string + pyval)"

definition start :: "store \<Rightarrow> run_state" where
  "start s = \<lparr> mem = s, pc = (\<lambda>name. NotStarted), settled = Map.empty \<rparr>"

fun step ::
  "master_agent \<Rightarrow> (string \<Rightarrow> behaviour) \<Rightarrow> event \<Rightarrow> run_state \<Rightarrow> run_state option"
where
  "step self agents (Launch name) st =
     (if name \<in> set agent_names \<and> pc st name = NotStarted
      then Some (st\<lparr> mem := run_agent_launch self name (mem st),
                     pc := (pc st)(name := Awaiting) \<rparr>)
      else None)"
| "step self agents (Settle name) st =
     (if pc st name = Awaiting
      then (case analyze_async (agents name) of
              None \<Rightarrow> None
            | Some out \<Rightarrow>
                Some (st\<lparr> mem := snd (run_agent_settle self name out (mem st)),
                          pc := (pc st)(name := Done),
                          settled := (settled st)(name \<mapsto> fst (run_agent_settle self name out (mem st))) \<rparr>))
      else None)"

fun run_events ::
  "master_agent \<Rightarrow> (string \<Rightarrow> behaviour) \<Rightarrow> event list \<Rightarrow> run_state \<Rightarrow> run_state option"
where
  "run_events self agents [] st = Some st"
| "run_events self agents (e # es) st =
     (case step self agents e st of None \<Rightarrow> None | Some st' \<Rightarrow> run_events self agents es st')"

text \<open>
  \<^verbatim>\<open>asyncio.gather\<close> starts the tasks in the order of \<^verbatim>\<open>self.agents\<close> and
  returns once each has settled, the results in that same order. It never
  returns when one of the awaits never completes.
\<close>

definition gather ::
  "master_agent \<Rightarrow> (string \<Rightarrow> behaviour) \<Rightarrow> store \<Rightarrow> ((string + pyval) list \<times> store) option"
where
  "gather self agents s =
     (case run_events self agents (map Launch agent_names @ map Settle agent_names) (start s) of
        None \<Rightarrow> None
      | Some st \<Rightarrow>
          (case those (map (settled st) agent_names) of
             None \<Rightarrow> None
           | Some results_list \<Rightarrow> Some (results_list, mem st)))"

text \<open>
  The loop over \<^verbatim>\<open>zip(self.agents.keys(), results_list)\<close> that fills
  \<^verbatim>\<open>all_results\<close>.
\<close>

fun build_results :: "(string \<times> (string + pyval)) list \<Rightarrow> results \<Rightarrow> results" where
  "build_results [] all_results = all_results"
| "build_results ((name, result) # rest) all_results =
     build_results rest
       (case result of
          Inl e \<Rightarrow> all_results(name \<mapsto> PDict [(''error'', PStr e), (''confidence'', PFloat 0.0)])
        | Inr v \<Rightarrow> all_results(name \<mapsto> v))"

definition dispatch ::
  "master_agent \<Rightarrow> (string \<Rightarrow> behaviour) \<Rightarrow> store \<Rightarrow> (results \<times> store) option"
where
  "dispatch self agents s =
     (case gather self agents s of
        None \<Rightarrow> None
      | Some (results_list, s') \<Rightarrow>
          Some (build_results (zip agent_names results_list) Map.empty, s'))"

section \<open>Orchestrator: \<^verbatim>\<open>MasterAgent.analyze_repurposing_async\<close>\<close>

text \<open>
  What lies outside the orchestrator: the providers, the language runtime, the
  report renderer (\<open>Inl\<close> its exception, \<open>Inr\<close> the path of the file) and the clock.
\<close>

record environment =
  behaviour_of :: "string \<Rightarrow> behaviour"
  runtime :: python
  generate_report :: "string \<Rightarrow> string \<Rightarrow> results \<Rightarrow> synthesis \<Rightarrow> string + string"
  utcnow_isoformat :: string

text \<open>
  The returned dictionary: the agents' entries with \<^verbatim>\<open>molecule\<close>, \<^verbatim>\<open>disease\<close>
  and \<^verbatim>\<open>timestamp\<close>, then \<^verbatim>\<open>master_synthesis\<close> and \<^verbatim>\<open>pdf_report\<close>.
\<close>

record result_bundle =
  all_results :: results
  master_synthesis :: synthesis
  pdf_report :: string

datatype run_error = SynthesisFailure pyerror | RendererFailure string

definition analyze_repurposing_async ::
  "master_agent \<Rightarrow> environment \<Rightarrow> string \<Rightarrow> string \<Rightarrow> store \<Rightarrow> ((run_error + result_bundle) \<times> store) option"
where
  "analyze_repurposing_async self env molecule_name disease_name s =
     (case dispatch self (behaviour_of env) s of
        None \<Rightarrow> None
      | Some (agent_results, s') \<Rightarrow>
          (let results = agent_results
                 (''molecule'' \<mapsto> PStr molecule_name,
                  ''disease'' \<mapsto> PStr disease_name,
                  ''timestamp'' \<mapsto> PStr (utcnow_isoformat env @ ''Z''))
           in case synthesize_results (runtime env) results of
                Inl e \<Rightarrow> Some (Inl (SynthesisFailure e), s')
              | Inr syn \<Rightarrow>
                  (case generate_report env molecule_name disease_name results syn of
                     Inl e \<Rightarrow> Some (Inl (RendererFailure e), s')
                   | Inr pdf_path \<Rightarrow>
                       Some (Inr \<lparr> all_results = results,
                                   master_synthesis = syn,
                                   pdf_report = pdf_path \<rparr>, s'))))"

section \<open>Vocabulary for the properties of a run\<close>

text \<open>
  The degraded placeholder that stands for a failed task, the value a task leaves
  in the results by the way its await ended, and the status it leaves in the
  progress dictionary.
\<close>

definition placeholder :: "string \<Rightarrow> pyval" where
  "placeholder description = PDict [(''error'', PStr description), (''confidence'', PFloat 0.0)]"

fun settled_value :: "outcome \<Rightarrow> pyval" where
  "settled_value (Returns v) = v"
| "settled_value RaisesTimeout = placeholder ''Timeout''"
| "settled_value (Raises e) = placeholder e"

text \<open>The description under which a failed await is recorded; none when it returned.\<close>

fun failure_description :: "outcome \<Rightarrow> string option" where
  "failure_description (Returns v) = None"
| "failure_description RaisesTimeout = Some ''Timeout''"
| "failure_description (Raises e) = Some e"

fun settled_status :: "outcome \<Rightarrow> status" where
  "settled_status (Returns v) = Complete"
| "settled_status RaisesTimeout = Failed"
| "settled_status (Raises e) = Failed"

text \<open>The status of an agent as the orchestrator's own dictionary has it.\<close>

definition status_of :: "master_agent \<Rightarrow> store \<Rightarrow> string \<Rightarrow> status option" where
  "status_of self s name = read_dict s (progress self) name"

definition terminal :: "status option \<Rightarrow> bool" where
  "terminal st = (st = Some Complete \<or> st = Some Failed)"

text \<open>
  The invariant of a run that began in store \<open>s0\<close>: where each task stands decides
  what the progress dictionary and the collected results hold for it.
\<close>

definition consistent ::
  "master_agent \<Rightarrow> (string \<Rightarrow> behaviour) \<Rightarrow> store \<Rightarrow> run_state \<Rightarrow> bool"
where
  "consistent self agents s0 st =
     (\<forall>name.
        (case pc st name of
           NotStarted \<Rightarrow>
             settled st name = None \<and> status_of self (mem st) name = status_of self s0 name
         | Awaiting \<Rightarrow>
             name \<in> set agent_names \<and> settled st name = None
           \<and> status_of self (mem st) name = Some Running
         | Done \<Rightarrow>
             name \<in> set agent_names
           \<and> (\<exists>out. analyze_async (agents name) = Some out
                  \<and> settled st name = Some (Inr (settled_value out))
                  \<and> status_of self (mem st) name = Some (settled_status out))))"

text \<open>
  The results handed to synthesis and to the renderer: the agents' entries with
  the three bookkeeping keys added.
\<close>

definition assembled :: "environment \<Rightarrow> string \<Rightarrow> string \<Rightarrow> results \<Rightarrow> results" where
  "assembled env molecule_name disease_name agent_results =
     agent_results
       (''molecule'' \<mapsto> PStr molecule_name,
        ''disease'' \<mapsto> PStr disease_name,
        ''timestamp'' \<mapsto> PStr (utcnow_isoformat env @ ''Z''))"

text \<open>The agent a scheduling event is about.\<close>

fun agent_of :: "event \<Rightarrow> string" where
  "agent_of (Launch name) = name"
| "agent_of (Settle name) = name"

text \<open>
  Providers for the examples: all answer within a second with confidence 0.9,
  except that the patent provider may be replaced.
\<close>

definition providers :: "behaviour \<Rightarrow> string \<Rightarrow> behaviour" where
  "providers patent name =
     (if name = ''patent_analysis'' then patent
      else Finishes 1 (Returns (PDict [(''confidence'', PFloat 0.9)])))"

definition example_env :: "behaviour \<Rightarrow> (string + string) \<Rightarrow> environment" where
  "example_env patent rendered =
     \<lparr> behaviour_of = providers patent,
       runtime = plain_python,
       generate_report = (\<lambda>molecule disease results syn. rendered),
       utcnow_isoformat = ''2025-01-01T00:00:00'' \<rparr>"

definition fresh_agent :: master_agent where
  "fresh_agent = fst (new_master_agent empty_store)"

definition fresh_store :: store where
  "fresh_store = snd (new_master_agent empty_store)"

section \<open>Properties of the synthesizer\<close>

lemma accumulate_sum:
  "list_all (conf_numeric r) (map fst ws) \<Longrightarrow>
   accumulate py r ws acc = Inr (acc + (\<Sum>(name, w)\<leftarrow>ws. w * stated_confidence r name))"
proof (induction ws arbitrary: acc)
  case Nil
  then show ?case by simp
next
  case (Cons p ws)
  obtain agent weight where p: "p = (agent, weight)" by (cases p)
  from Cons.prems have cn: "conf_numeric r agent" and rest: "list_all (conf_numeric r) (map fst ws)"
    by (simp_all add: p)
  note IH = Cons.IH [OF rest]
  show ?case
  proof (cases "r agent")
    case None
    then show ?thesis
      by (simp add: p IH results_get_def dict_get_def stated_confidence_def)
  next
    case (Some v)
    show ?thesis
    proof (cases v)
      case (PDict d)
      show ?thesis
      proof (cases "map_of d ''confidence''")
        case None
        with Some PDict show ?thesis
          by (simp add: p IH results_get_def dict_get_def stated_confidence_def)
      next
        case (Some c)
        with cn \<open>r agent = Some v\<close> PDict have "is_number c"
          by (simp add: conf_numeric_def)
        with Some \<open>r agent = Some v\<close> PDict show ?thesis
          by (cases c) (simp_all add: p IH results_get_def dict_get_def stated_confidence_def is_number_def algebra_simps)
      qed
    qed (simp_all add: Some p IH results_get_def stated_confidence_def)
  qed
qed


lemma weights_nonneg: "(name, w) \<in> set weights \<Longrightarrow> 0 \<le> w"
  by (auto simp: weights_def)

lemma weights_total: "(\<Sum>(name, w)\<leftarrow>weights. w) = 1"
  by (simp add: weights_def)

lemma well_typed_uniform: "well_typed (uniform_results c)"
  by (simp add: well_typed_def uniform_results_def conf_numeric_def is_number_def weights_def)

lemma weighted_confidence_uniform: "weighted_confidence py (uniform_results c) = Inr c"
proof -
  have "weighted_confidence py (uniform_results c)
        = Inr (\<Sum>(name, w)\<leftarrow>weights. w * stated_confidence (uniform_results c) name)"
    using well_typed_uniform [of c] accumulate_sum [of "uniform_results c" weights py 0]
    by (simp add: weighted_confidence_def well_typed_def)
  also have "(\<Sum>(name, w)\<leftarrow>weights. w * stated_confidence (uniform_results c) name) = c"
    by (simp add: weights_def uniform_results_def stated_confidence_def algebra_simps)
  finally show ?thesis .
qed

lemma round_core_mono:
  fixes y y' :: real
  assumes "y \<le> y'"
  shows "(let f = \<lfloor>y\<rfloor>; d = y - of_int f in
            if d < 1 / 2 then f else if 1 / 2 < d then f + 1 else if even f then f else f + 1)
       \<le> (let f = \<lfloor>y'\<rfloor>; d = y' - of_int f in
            if d < 1 / 2 then f else if 1 / 2 < d then f + 1 else if even f then f else f + 1)"
proof (cases "\<lfloor>y\<rfloor> = \<lfloor>y'\<rfloor>")
  case True
  with assms show ?thesis by (auto simp: Let_def)
next
  case False
  with assms have "\<lfloor>y\<rfloor> + 1 \<le> \<lfloor>y'\<rfloor>"
    using floor_mono [of y y'] by linarith
  then show ?thesis by (auto simp: Let_def)
qed

lemma py_round2_mono: "x \<le> x' \<Longrightarrow> py_round2 x \<le> py_round2 x'"
proof -
  assume "x \<le> x'"
  then have "x * 100 \<le> x' * 100" by simp
  from round_core_mono [OF this] show ?thesis
    unfolding py_round2_def Let_def
    by (simp add: divide_right_mono)
qed

lemma stated_confidence_cong: "r' n = r n \<Longrightarrow> stated_confidence r' n = stated_confidence r n"
  by (simp add: stated_confidence_def)

lemma weighted_sum_mono:
  assumes "\<forall>n. n \<noteq> name \<longrightarrow> r' n = r n"
    and "stated_confidence r name \<le> stated_confidence r' name"
  shows "(\<Sum>(n, w)\<leftarrow>weights. w * stated_confidence r n)
       \<le> (\<Sum>(n, w)\<leftarrow>weights. w * stated_confidence r' n)"
proof (rule sum_list_mono)
  fix p assume p: "p \<in> set weights"
  obtain n w where nw: "p = (n, w)" by (cases p)
  have "stated_confidence r n \<le> stated_confidence r' n"
    using assms stated_confidence_cong [of r' n r] by (cases "n = name") auto
  moreover have "0 \<le> w" using p nw weights_nonneg by blast
  ultimately show "(case p of (n, w) \<Rightarrow> w * stated_confidence r n)
                 \<le> (case p of (n, w) \<Rightarrow> w * stated_confidence r' n)"
    by (simp add: nw mult_left_mono)
qed

lemma weighted_confidence_sum:
  "well_typed r \<Longrightarrow>
   weighted_confidence py r = Inr (\<Sum>(name, w)\<leftarrow>weights. w * stated_confidence r name)"
  using accumulate_sum [of r weights py 0]
  by (simp add: weighted_confidence_def well_typed_def)

text \<open>The sum written out over the six capabilities.\<close>

lemma weighted_sum_expanded:
  "(\<Sum>(name, w)\<leftarrow>weights. w * stated_confidence r name)
     = 0.25 * stated_confidence r ''patent_analysis''
     + 0.20 * stated_confidence r ''clinical_analysis''
     + 0.20 * stated_confidence r ''market_analysis''
     + 0.15 * stated_confidence r ''web_analysis''
     + 0.10 * stated_confidence r ''exim_analysis''
     + 0.10 * stated_confidence r ''internal_analysis''"
  by (simp add: weights_def)

lemma synthesize_of_weighted:
  "weighted_confidence py r = Inr overall \<Longrightarrow>
   \<exists>rep. synthesize_results py r = Inr rep
       \<and> overall_confidence rep = py_round2 overall
       \<and> recommendation rep = recommend overall"
  by (simp add: synthesize_results_def Let_def)

text \<open>
  A confidence that is present but not a number is outside the contract, and
  \<^verbatim>\<open>float\<close> raises on it.
\<close>

lemma synthesize_results_untyped:
  "synthesize_results py [''patent_analysis'' \<mapsto> PDict [(''confidence'', PNone)]] = Inl TypeError"
  by (simp add: synthesize_results_def weighted_confidence_def weights_def results_get_def
      dict_get_def)



text \<open>
  Claim C2. Whatever value the overall confidence takes, the recommendation of
  \<^verbatim>\<open>synthesize_results\<close> is PROCEED from 0.75 upwards, CAUTION from 0.50 up to but
  excluding 0.75, and REJECT below 0.50: each band includes its lower bound.
\<close>

theorem recommendation_bands:
  assumes "weighted_confidence py r = Inr overall"
  shows "\<exists>rep. synthesize_results py r = Inr rep
           \<and> (0.75 \<le> overall \<longrightarrow> recommendation rep = ''PROCEED'')
           \<and> (0.5 \<le> overall \<and> overall < 0.75 \<longrightarrow> recommendation rep = ''CAUTION'')
           \<and> (overall < 0.5 \<longrightarrow> recommendation rep = ''REJECT'')"
proof -
  from synthesize_of_weighted [OF assms] obtain rep
    where rep: "synthesize_results py r = Inr rep" "recommendation rep = recommend overall"
    by blast
  have "0.75 \<le> overall \<longrightarrow> recommend overall = ''PROCEED''"
    by (simp add: recommend_def)
  moreover have "0.5 \<le> overall \<and> overall < 0.75 \<longrightarrow> recommend overall = ''CAUTION''"
    by (simp add: recommend_def)
  moreover have "overall < 0.5 \<longrightarrow> recommend overall = ''REJECT''"
    by (simp add: recommend_def)
  ultimately show ?thesis using rep by auto
qed

theorem recommendation_bands_witness:
  "weighted_confidence plain_python (uniform_results 0.75) = Inr 0.75
   \<and> (\<exists>rep. synthesize_results plain_python (uniform_results 0.75) = Inr rep
           \<and> recommendation rep = ''PROCEED'')
   \<and> weighted_confidence plain_python (uniform_results 0.5) = Inr 0.5
   \<and> (\<exists>rep. synthesize_results plain_python (uniform_results 0.5) = Inr rep
           \<and> recommendation rep = ''CAUTION'')
   \<and> weighted_confidence plain_python (uniform_results 0.4999) = Inr 0.4999
   \<and> (\<exists>rep. synthesize_results plain_python (uniform_results 0.4999) = Inr rep
           \<and> recommendation rep = ''REJECT'')"
proof -
  have a: "weighted_confidence plain_python (uniform_results 0.75) = Inr 0.75"
    by (rule weighted_confidence_uniform)
  have b: "weighted_confidence plain_python (uniform_results 0.5) = Inr 0.5"
    by (rule weighted_confidence_uniform)
  have c: "weighted_confidence plain_python (uniform_results 0.4999) = Inr 0.4999"
    by (rule weighted_confidence_uniform)
  show ?thesis
    using recommendation_bands [OF a] recommendation_bands [OF b] recommendation_bands [OF c] a b c
    by simp
qed

text \<open>
  Claim C6. The overall confidence never decreases when one capability's
  confidence is raised and every other result is held fixed; this holds of the
  weighted sum and of the rounded value that \<^verbatim>\<open>synthesize_results\<close> returns.
\<close>

theorem overall_confidence_monotone:
  assumes "well_typed r" and "well_typed r'"
    and "\<forall>n. n \<noteq> name \<longrightarrow> r' n = r n"
    and "stated_confidence r name \<le> stated_confidence r' name"
  shows "\<exists>overall overall' rep rep'.
            weighted_confidence py r = Inr overall
          \<and> weighted_confidence py r' = Inr overall'
          \<and> overall \<le> overall'
          \<and> synthesize_results py r = Inr rep
          \<and> synthesize_results py r' = Inr rep'
          \<and> overall_confidence rep \<le> overall_confidence rep'"
proof -
  let ?s = "\<Sum>(n, w)\<leftarrow>weights. w * stated_confidence r n"
  let ?s' = "\<Sum>(n, w)\<leftarrow>weights. w * stated_confidence r' n"
  have w: "weighted_confidence py r = Inr ?s"
    using assms(1) by (rule weighted_confidence_sum)
  have w': "weighted_confidence py r' = Inr ?s'"
    using assms(2) by (rule weighted_confidence_sum)
  have le: "?s \<le> ?s'"
    using assms(3,4) by (rule weighted_sum_mono)
  from synthesize_of_weighted [OF w] obtain rep
    where rep: "synthesize_results py r = Inr rep" "overall_confidence rep = py_round2 ?s"
    by blast
  from synthesize_of_weighted [OF w'] obtain rep'
    where rep': "synthesize_results py r' = Inr rep'" "overall_confidence rep' = py_round2 ?s'"
    by blast
  have "overall_confidence rep \<le> overall_confidence rep'"
    using py_round2_mono [OF le] rep(2) rep'(2) by simp
  with w w' le rep(1) rep'(1) show ?thesis by blast
qed

theorem overall_confidence_monotone_witness:
  "well_typed (uniform_results 0.5)
   \<and> well_typed ((uniform_results 0.5)(''market_analysis'' \<mapsto> PDict [(''confidence'', PFloat 0.9)]))
   \<and> stated_confidence (uniform_results 0.5) ''market_analysis''
       \<le> stated_confidence ((uniform_results 0.5)(''market_analysis'' \<mapsto> PDict [(''confidence'', PFloat 0.9)]))
            ''market_analysis''
   \<and> (\<exists>overall overall' rep rep'.
          weighted_confidence plain_python (uniform_results 0.5) = Inr overall
        \<and> weighted_confidence plain_python
            ((uniform_results 0.5)(''market_analysis'' \<mapsto> PDict [(''confidence'', PFloat 0.9)])) = Inr overall'
        \<and> overall \<le> overall'
        \<and> synthesize_results plain_python (uniform_results 0.5) = Inr rep
        \<and> synthesize_results plain_python
            ((uniform_results 0.5)(''market_analysis'' \<mapsto> PDict [(''confidence'', PFloat 0.9)])) = Inr rep'
        \<and> overall_confidence rep \<le> overall_confidence rep')"
proof -
  let ?r = "uniform_results 0.5"
  let ?r' = "(uniform_results 0.5)(''market_analysis'' \<mapsto> PDict [(''confidence'', PFloat 0.9)])"
  have a: "well_typed ?r" by (rule well_typed_uniform)
  have b: "well_typed ?r'"
    by (simp add: well_typed_def uniform_results_def conf_numeric_def is_number_def weights_def)
  have c: "\<forall>n. n \<noteq> ''market_analysis'' \<longrightarrow> ?r' n = ?r n" by simp
  have d: "stated_confidence ?r ''market_analysis'' \<le> stated_confidence ?r' ''market_analysis''"
    by (simp add: stated_confidence_def uniform_results_def weights_def)
  from overall_confidence_monotone [OF a b c d, of plain_python] a b d show ?thesis
    by blast
qed

text \<open>
  Claim C10. The \<^verbatim>\<open>overall_confidence\<close> that \<^verbatim>\<open>synthesize_results\<close> reports is the
  weighted sum rounded to two decimal places, while the recommendation is chosen
  on the sum before rounding. The two can therefore disagree: with every
  capability at 0.748 the sum is 0.748, the recommendation is CAUTION, and the
  reported confidence is 0.75, a value of the PROCEED band.
\<close>

theorem reported_confidence_rounded:
  "(\<forall>py r overall.
       weighted_confidence py r = Inr overall \<longrightarrow>
       (\<exists>rep. synthesize_results py r = Inr rep
             \<and> overall_confidence rep = py_round2 overall
             \<and> recommendation rep = recommend overall))
   \<and> weighted_confidence plain_python (uniform_results 0.748) = Inr 0.748
   \<and> (\<exists>rep. synthesize_results plain_python (uniform_results 0.748) = Inr rep
           \<and> overall_confidence rep = 0.75
           \<and> recommendation rep = ''CAUTION''
           \<and> recommend (overall_confidence rep) = ''PROCEED'')"
proof -
  have w: "weighted_confidence plain_python (uniform_results 0.748) = Inr 0.748"
    by (rule weighted_confidence_uniform)
  have rnd: "py_round2 0.748 = 0.75"
    by (simp add: py_round2_def Let_def)
  have rec: "recommend 0.748 = ''CAUTION''" "recommend 0.75 = ''PROCEED''"
    by (simp_all add: recommend_def)
  from synthesize_of_weighted [OF w] obtain rep
    where "synthesize_results plain_python (uniform_results 0.748) = Inr rep"
      and "overall_confidence rep = py_round2 0.748"
      and "recommendation rep = recommend 0.748"
    by blast
  have oc: "overall_confidence rep = 0.75"
    using \<open>overall_confidence rep = py_round2 0.748\<close> rnd by (rule trans)
  have rc: "recommendation rep = ''CAUTION''"
    using \<open>recommendation rep = recommend 0.748\<close> rec(1) by (rule trans)
  have "recommend (overall_confidence rep) = ''PROCEED''"
    unfolding oc by (rule rec(2))
  with oc rc \<open>synthesize_results plain_python (uniform_results 0.748) = Inr rep\<close>
  have "\<exists>rep. synthesize_results plain_python (uniform_results 0.748) = Inr rep
           \<and> overall_confidence rep = 0.75
           \<and> recommendation rep = ''CAUTION''
           \<and> recommend (overall_confidence rep) = ''PROCEED''"
    by blast
  with w synthesize_of_weighted show ?thesis by blast
qed

theorem reported_confidence_rounded_witness:
  "weighted_confidence plain_python partial_results = Inr 0.367
   \<and> (\<exists>rep. synthesize_results plain_python partial_results = Inr rep
           \<and> overall_confidence rep = 0.37
           \<and> recommendation rep = ''REJECT'')"
proof -
  have wt: "well_typed partial_results"
    by (simp add: well_typed_def partial_results_def conf_numeric_def is_number_def weights_def)
  have sum: "(\<Sum>(name, w)\<leftarrow>weights. w * stated_confidence partial_results name) = 0.367"
    by (simp add: weights_def partial_results_def stated_confidence_def)
  have w: "weighted_confidence plain_python partial_results = Inr 0.367"
    using weighted_confidence_sum [OF wt, of plain_python] unfolding sum .
  have rnd: "py_round2 0.367 = 0.37"
    by (simp add: py_round2_def Let_def)
  have rec: "recommend 0.367 = ''REJECT''"
    by (simp add: recommend_def)
  from reported_confidence_rounded w obtain rep
    where r1: "synthesize_results plain_python partial_results = Inr rep"
      and r2: "overall_confidence rep = py_round2 0.367"
      and r3: "recommendation rep = recommend 0.367"
    by blast
  have "overall_confidence rep = 0.37" using r2 rnd by (rule trans)
  moreover have "recommendation rep = ''REJECT''" using r3 rec by (rule trans)
  ultimately show ?thesis using w r1 by blast
qed

section \<open>Properties of the conflict detector\<close>





text \<open>
  Outside well-formed data the detector does raise: a \<^verbatim>\<open>source_data\<close> that is
  \<^verbatim>\<open>None\<close> cannot be iterated, an entry that is not a dictionary has no
  \<^verbatim>\<open>.get\<close>, and a list for an expiry date cannot enter a set.
\<close>

lemma detect_conflicts_malformed:
  "detect_conflicts [''patent_analysis'' \<mapsto> PDict [(''source_data'', PNone)]] = Inl TypeError"
  "detect_conflicts [''patent_analysis'' \<mapsto> PDict [(''source_data'', PList [PStr ''USPTO''])]]
     = Inl AttributeError"
  "detect_conflicts [''patent_analysis'' \<mapsto> PDict [(''expiry_date'', PList [PStr ''2030''])]]
     = Inl TypeError"
  by (simp_all add: detect_conflicts_def results_get_def dict_get_def unique_values_def)



section \<open>Properties of the dispatcher and the progress tracker\<close>

lemma status_of_set_progress:
  "status_of self (set_progress self name st s) n = (if n = name then Some st else status_of self s n)"
  by (simp add: status_of_def read_dict_def set_progress_def)

lemma run_agent_settle_fst: "fst (run_agent_settle self name out s) = Inr (settled_value out)"
  by (cases out) (simp_all add: placeholder_def)

lemma run_agent_settle_snd:
  "snd (run_agent_settle self name out s) = set_progress self name (settled_status out) s"
  by (cases out) simp_all

lemma step_Launch:
  "step self agents (Launch name) st = Some st' \<longleftrightarrow>
     name \<in> set agent_names \<and> pc st name = NotStarted
   \<and> st' = st\<lparr> mem := set_progress self name Running (mem st), pc := (pc st)(name := Awaiting) \<rparr>"
  by (auto simp: run_agent_launch_def)

lemma step_Settle:
  "step self agents (Settle name) st = Some st' \<longleftrightarrow>
     pc st name = Awaiting
   \<and> (\<exists>out. analyze_async (agents name) = Some out
        \<and> st' = st\<lparr> mem := set_progress self name (settled_status out) (mem st),
                     pc := (pc st)(name := Done),
                     settled := (settled st)(name \<mapsto> Inr (settled_value out)) \<rparr>)"
  by (auto simp: run_agent_settle_fst run_agent_settle_snd split: option.splits)

lemma consistent_start: "consistent self agents s (start s)"
  by (simp add: consistent_def start_def)

lemma consistent_step:
  assumes "consistent self agents s0 st" and "step self agents e st = Some st'"
  shows "consistent self agents s0 st'"
proof (cases e)
  case (Launch name)
  with assms(2) have st': "name \<in> set agent_names" "pc st name = NotStarted"
    "st' = st\<lparr> mem := set_progress self name Running (mem st), pc := (pc st)(name := Awaiting) \<rparr>"
    by (simp_all add: step_Launch del: step.simps)
  show ?thesis
    unfolding consistent_def
  proof
    fix n
    from assms(1) have c: "case pc st n of
           NotStarted \<Rightarrow>
             settled st n = None \<and> status_of self (mem st) n = status_of self s0 n
         | Awaiting \<Rightarrow>
             n \<in> set agent_names \<and> settled st n = None
           \<and> status_of self (mem st) n = Some Running
         | Done \<Rightarrow>
             n \<in> set agent_names
           \<and> (\<exists>out. analyze_async (agents n) = Some out
                  \<and> settled st n = Some (Inr (settled_value out))
                  \<and> status_of self (mem st) n = Some (settled_status out))"
      unfolding consistent_def by blast
    show "case pc st' n of
           NotStarted \<Rightarrow>
             settled st' n = None \<and> status_of self (mem st') n = status_of self s0 n
         | Awaiting \<Rightarrow>
             n \<in> set agent_names \<and> settled st' n = None
           \<and> status_of self (mem st') n = Some Running
         | Done \<Rightarrow>
             n \<in> set agent_names
           \<and> (\<exists>out. analyze_async (agents n) = Some out
                  \<and> settled st' n = Some (Inr (settled_value out))
                  \<and> status_of self (mem st') n = Some (settled_status out))"
    proof (cases "n = name")
      case True
      with c st' show ?thesis by (simp add: status_of_set_progress)
    next
      case False
      with c st' show ?thesis by (simp add: status_of_set_progress split: task_pc.splits)
    qed
  qed
next
  case (Settle name)
  with assms(2) obtain out where st': "pc st name = Awaiting" "analyze_async (agents name) = Some out"
    "st' = st\<lparr> mem := set_progress self name (settled_status out) (mem st),
                     pc := (pc st)(name := Done),
                     settled := (settled st)(name \<mapsto> Inr (settled_value out)) \<rparr>"
    by (auto simp add: step_Settle simp del: step.simps)
  show ?thesis
    unfolding consistent_def
  proof
    fix n
    from assms(1) have c: "case pc st n of
           NotStarted \<Rightarrow>
             settled st n = None \<and> status_of self (mem st) n = status_of self s0 n
         | Awaiting \<Rightarrow>
             n \<in> set agent_names \<and> settled st n = None
           \<and> status_of self (mem st) n = Some Running
         | Done \<Rightarrow>
             n \<in> set agent_names
           \<and> (\<exists>out. analyze_async (agents n) = Some out
                  \<and> settled st n = Some (Inr (settled_value out))
                  \<and> status_of self (mem st) n = Some (settled_status out))"
      unfolding consistent_def by blast
    show "case pc st' n of
           NotStarted \<Rightarrow>
             settled st' n = None \<and> status_of self (mem st') n = status_of self s0 n
         | Awaiting \<Rightarrow>
             n \<in> set agent_names \<and> settled st' n = None
           \<and> status_of self (mem st') n = Some Running
         | Done \<Rightarrow>
             n \<in> set agent_names
           \<and> (\<exists>out. analyze_async (agents n) = Some out
                  \<and> settled st' n = Some (Inr (settled_value out))
                  \<and> status_of self (mem st') n = Some (settled_status out))"
    proof (cases "n = name")
      case True
      with c st' show ?thesis by (simp add: status_of_set_progress)
    next
      case False
      with c st' show ?thesis by (simp add: status_of_set_progress split: task_pc.splits)
    qed
  qed
qed

lemma consistent_NotStarted:
  "consistent self agents s0 st \<Longrightarrow> pc st n = NotStarted \<Longrightarrow>
   settled st n = None \<and> status_of self (mem st) n = status_of self s0 n"
  unfolding consistent_def by (drule spec [of _ n]) simp

lemma consistent_Awaiting:
  "consistent self agents s0 st \<Longrightarrow> pc st n = Awaiting \<Longrightarrow>
   n \<in> set agent_names \<and> settled st n = None \<and> status_of self (mem st) n = Some Running"
  unfolding consistent_def by (drule spec [of _ n]) simp

lemma consistent_Done:
  "consistent self agents s0 st \<Longrightarrow> pc st n = Done \<Longrightarrow>
   n \<in> set agent_names
   \<and> (\<exists>out. analyze_async (agents n) = Some out
          \<and> settled st n = Some (Inr (settled_value out))
          \<and> status_of self (mem st) n = Some (settled_status out))"
  unfolding consistent_def by (drule spec [of _ n]) simp

lemma consistent_run_events:
  "consistent self agents s0 st \<Longrightarrow> run_events self agents evs st = Some st' \<Longrightarrow> consistent self agents s0 st'"
proof (induction evs arbitrary: st)
  case Nil
  then show ?case by simp
next
  case (Cons e evs)
  from Cons.prems(2) obtain st1 where s1: "step self agents e st = Some st1"
    and r: "run_events self agents evs st1 = Some st'"
    by (auto split: option.splits)
  from consistent_step [OF Cons.prems(1) s1] r show ?case by (rule Cons.IH)
qed

lemma run_events_append:
  "run_events self agents (xs @ ys) st =
     (case run_events self agents xs st of None \<Rightarrow> None | Some st' \<Rightarrow> run_events self agents ys st')"
  by (induction xs arbitrary: st) (simp_all split: option.splits)

lemma launch_all:
  "distinct ns \<Longrightarrow> set ns \<subseteq> set agent_names \<Longrightarrow> \<forall>n\<in>set ns. pc st n = NotStarted \<Longrightarrow>
   \<exists>st'. run_events self agents (map Launch ns) st = Some st'
       \<and> (\<forall>n. pc st' n = (if n \<in> set ns then Awaiting else pc st n))"
proof (induction ns arbitrary: st)
  case Nil
  then show ?case by simp
next
  case (Cons a ns)
  let ?st1 = "st\<lparr> mem := set_progress self a Running (mem st), pc := (pc st)(a := Awaiting) \<rparr>"
  from Cons.prems have s: "step self agents (Launch a) st = Some ?st1"
    by (simp add: step_Launch del: step.simps)
  from Cons.prems have "distinct ns" "set ns \<subseteq> set agent_names" "\<forall>n\<in>set ns. pc ?st1 n = NotStarted"
    by auto
  from Cons.IH [OF this] obtain st' where
    "run_events self agents (map Launch ns) ?st1 = Some st'"
    "\<forall>n. pc st' n = (if n \<in> set ns then Awaiting else pc ?st1 n)"
    by blast
  with s show ?case by (simp del: step.simps)
qed

lemma settle_all:
  "distinct ns \<Longrightarrow> \<forall>n\<in>set ns. pc st n = Awaiting \<and> agents n \<noteq> Hangs \<Longrightarrow>
   \<exists>st'. run_events self agents (map Settle ns) st = Some st'
       \<and> (\<forall>n. pc st' n = (if n \<in> set ns then Done else pc st n))"
proof (induction ns arbitrary: st)
  case Nil
  then show ?case by simp
next
  case (Cons a ns)
  from Cons.prems obtain t out where b: "agents a = Finishes t out"
    by (cases "agents a") auto
  let ?st1 = "st\<lparr> mem := set_progress self a (settled_status out) (mem st),
                     pc := (pc st)(a := Done),
                     settled := (settled st)(a \<mapsto> Inr (settled_value out)) \<rparr>"
  from Cons.prems b have s: "step self agents (Settle a) st = Some ?st1"
    by (simp add: step_Settle analyze_async_def del: step.simps)
  from Cons.prems have "distinct ns" "\<forall>n\<in>set ns. pc ?st1 n = Awaiting \<and> agents n \<noteq> Hangs"
    by auto
  from Cons.IH [OF this] obtain st' where
    "run_events self agents (map Settle ns) ?st1 = Some st'"
    "\<forall>n. pc st' n = (if n \<in> set ns then Done else pc ?st1 n)"
    by blast
  with s show ?case by (simp del: step.simps)
qed

lemma distinct_agent_names: "distinct agent_names"
  by (simp add: agent_names_def)

lemma canonical_schedule_runs:
  assumes "\<forall>n\<in>set agent_names. agents n \<noteq> Hangs"
  shows "\<exists>st. run_events self agents (map Launch agent_names @ map Settle agent_names) (start s) = Some st
            \<and> (\<forall>n\<in>set agent_names. pc st n = Done)"
proof -
  have "\<forall>n\<in>set agent_names. pc (start s) n = NotStarted"
    by (simp add: start_def)
  from launch_all [OF distinct_agent_names subset_refl this, of self agents] obtain st1 where
    l: "run_events self agents (map Launch agent_names) (start s) = Some st1"
    and p: "\<forall>n. pc st1 n = (if n \<in> set agent_names then Awaiting else pc (start s) n)"
    by blast
  from p assms have "\<forall>n\<in>set agent_names. pc st1 n = Awaiting \<and> agents n \<noteq> Hangs"
    by simp
  from settle_all [OF distinct_agent_names this, of self] obtain st2 where
    "run_events self agents (map Settle agent_names) st1 = Some st2"
    "\<forall>n. pc st2 n = (if n \<in> set agent_names then Done else pc st1 n)"
    by blast
  with l show ?thesis by (simp add: run_events_append)
qed

lemma those_map:
  "\<forall>n\<in>set ns. f n = Some (g n) \<Longrightarrow> those (map f ns) = Some (map g ns)"
  by (induction ns) simp_all

lemma build_results_map:
  "build_results (zip ns (map (\<lambda>n. Inr (g n)) ns)) m = (\<lambda>n. if n \<in> set ns then Some (g n) else m n)"
  by (induction ns arbitrary: m) (auto simp: fun_eq_iff)

lemma dispatch_settled:
  assumes "\<forall>n\<in>set agent_names. analyze_async (agents n) = Some (out n)"
  shows "\<exists>s'. dispatch self agents s
                = Some (\<lambda>n. if n \<in> set agent_names then Some (settled_value (out n)) else None, s')
            \<and> (\<forall>n\<in>set agent_names. status_of self s' n = Some (settled_status (out n)))"
proof -
  from assms have "\<forall>n\<in>set agent_names. agents n \<noteq> Hangs"
    by (auto simp: analyze_async_def)
  from canonical_schedule_runs [OF this, of self s] obtain st where
    r: "run_events self agents (map Launch agent_names @ map Settle agent_names) (start s) = Some st"
    and d: "\<forall>n\<in>set agent_names. pc st n = Done"
    by blast
  from consistent_run_events [OF consistent_start r] have c: "consistent self agents s st" .
  have each: "settled st n = Some (Inr (settled_value (out n)))
            \<and> status_of self (mem st) n = Some (settled_status (out n))"
    if "n \<in> set agent_names" for n
  proof -
    from that d have "pc st n = Done" by simp
    from consistent_Done [OF c this] obtain out' where "analyze_async (agents n) = Some out'"
      "settled st n = Some (Inr (settled_value out'))"
      "status_of self (mem st) n = Some (settled_status out')"
      by blast
    moreover from this(1) assms that have "out' = out n" by simp
    ultimately show ?thesis by simp
  qed
  then have "those (map (settled st) agent_names)
             = Some (map (\<lambda>n. Inr (settled_value (out n))) agent_names)"
    by (intro those_map) simp
  with r have "gather self agents s
         = Some (map (\<lambda>n. Inr (settled_value (out n))) agent_names, mem st)"
    by (simp add: gather_def)
  then have "dispatch self agents s
         = Some (\<lambda>n. if n \<in> set agent_names then Some (settled_value (out n)) else None, mem st)"
    by (simp add: dispatch_def build_results_map)
  with each show ?thesis by blast
qed

text \<open>
  The order in which tasks settle does not matter: whatever the interleaving, a
  run in which every task has settled holds the results and statuses that
  \<open>dispatch\<close> computes.
\<close>

lemma complete_run_results:
  assumes "run_events self agents evs (start s) = Some st"
    and "\<forall>n\<in>set agent_names. pc st n = Done"
  shows "\<exists>agent_results s'.
           dispatch self agents s = Some (agent_results, s')
         \<and> (\<forall>n\<in>set agent_names.
               settled st n = map_option Inr (agent_results n)
             \<and> status_of self (mem st) n = status_of self s' n)"
proof -
  have c: "consistent self agents s st"
    by (rule consistent_run_events [OF consistent_start assms(1)])
  let ?out = "\<lambda>n. the (analyze_async (agents n))"
  have each: "analyze_async (agents n) = Some (?out n)
            \<and> settled st n = Some (Inr (settled_value (?out n)))
            \<and> status_of self (mem st) n = Some (settled_status (?out n))"
    if "n \<in> set agent_names" for n
  proof -
    from that assms(2) have "pc st n = Done" by simp
    from consistent_Done [OF c this] show ?thesis by auto
  qed
  then have "\<forall>n\<in>set agent_names. analyze_async (agents n) = Some (?out n)"
    by simp
  from dispatch_settled [OF this, of self s] obtain s' where
    "dispatch self agents s
       = Some (\<lambda>n. if n \<in> set agent_names then Some (settled_value (?out n)) else None, s')"
    "\<forall>n\<in>set agent_names. status_of self s' n = Some (settled_status (?out n))"
    by blast
  with each show ?thesis by simp
qed

lemma no_hang_outcomes:
  assumes "\<forall>n\<in>set agent_names. agents n \<noteq> Hangs"
  shows "\<forall>n\<in>set agent_names. analyze_async (agents n) = Some (the (analyze_async (agents n)))"
proof
  fix n assume "n \<in> set agent_names"
  with assms have "agents n \<noteq> Hangs" by simp
  then show "analyze_async (agents n) = Some (the (analyze_async (agents n)))"
    by (cases "agents n") (simp_all add: analyze_async_def)
qed

lemma run_after_dispatch:
  assumes "dispatch self (behaviour_of env) s = Some (agent_results, s')"
  shows "analyze_repurposing_async self env molecule disease s =
           Some (case synthesize_results (runtime env) (assembled env molecule disease agent_results) of
                   Inl e \<Rightarrow> Inl (SynthesisFailure e)
                 | Inr syn \<Rightarrow>
                     (case generate_report env molecule disease
                             (assembled env molecule disease agent_results) syn of
                        Inl e \<Rightarrow> Inl (RendererFailure e)
                      | Inr pdf_path \<Rightarrow>
                          Inr \<lparr> all_results = assembled env molecule disease agent_results,
                                master_synthesis = syn, pdf_report = pdf_path \<rparr>), s')"
  using assms
  by (simp add: analyze_repurposing_async_def assembled_def Let_def split: sum.splits)

lemma assembled_agent:
  "n \<in> set agent_names \<Longrightarrow> assembled env molecule disease agent_results n = agent_results n"
  by (auto simp: assembled_def agent_names_def)

lemma hanging_task_never_done:
  assumes "run_events self agents evs (start s) = Some st" and "agents n = Hangs"
  shows "pc st n \<noteq> Done"
proof
  assume "pc st n = Done"
  from consistent_Done [OF consistent_run_events [OF consistent_start assms(1)] this]
  show False using assms(2) by (simp add: analyze_async_def)
qed

lemma settle_needs_outcome:
  "run_events self agents (map Settle ns) st = Some st' \<Longrightarrow> n \<in> set ns \<Longrightarrow> agents n \<noteq> Hangs"
proof (induction ns arbitrary: st)
  case Nil
  then show ?case by simp
next
  case (Cons a ns)
  from Cons.prems(1) obtain st1 where s1: "step self agents (Settle a) st = Some st1"
    and r: "run_events self agents (map Settle ns) st1 = Some st'"
    by (auto split: option.splits)
  show ?case
  proof (cases "n = a")
    case True
    with s1 show ?thesis by (auto simp add: step_Settle analyze_async_def simp del: step.simps)
  next
    case False
    with Cons.prems(2) have "n \<in> set ns" by simp
    with r show ?thesis by (rule Cons.IH)
  qed
qed

lemma dispatch_hangs:
  assumes "n \<in> set agent_names" and "agents n = Hangs"
  shows "dispatch self agents s = None"
proof -
  have "run_events self agents (map Launch agent_names @ map Settle agent_names) (start s) = None"
  proof (rule ccontr)
    assume "run_events self agents (map Launch agent_names @ map Settle agent_names) (start s) \<noteq> None"
    then obtain st1 st where "run_events self agents (map Settle agent_names) st1 = Some st"
      by (auto simp: run_events_append split: option.splits)
    from settle_needs_outcome [OF this assms(1)] assms(2) show False by simp
  qed
  then show ?thesis by (simp add: dispatch_def gather_def)
qed

lemma settled_failure:
  "failure_description out = Some description \<Longrightarrow>
   settled_value out = placeholder description \<and> settled_status out = Failed"
  by (cases out) simp_all

text \<open>
  Launching writes Running over whatever the dictionary held: the progress
  dictionary is made once, by the constructor, and a further run on the same
  orchestrator starts from the statuses the previous run left.
\<close>

lemma launch_overwrites_status:
  "name \<in> set agent_names \<Longrightarrow>
   \<exists>st'. step self agents (Launch name) (start s) = Some st'
       \<and> status_of self (mem st') name = Some Running"
  by (simp add: start_def run_agent_launch_def status_of_set_progress)

lemma map_of_const:
  "map_of (map (\<lambda>n. (n, v)) ns) k = (if k \<in> set ns then Some v else None)"
  by (induction ns) simp_all

lemma fresh_status:
  "new_master_agent s = (self, s0) \<Longrightarrow>
   status_of self s0 n = (if n \<in> set agent_names then Some Pending else None)"
  by (auto simp: new_master_agent_def status_of_def read_dict_def map_of_const)

lemma step_status:
  assumes "consistent self agents s0 st" and "step self agents e st = Some st'"
  shows "(\<forall>n. n \<noteq> agent_of e \<longrightarrow> status_of self (mem st') n = status_of self (mem st) n)
       \<and> (case e of
            Launch n \<Rightarrow> n \<in> set agent_names
                     \<and> status_of self (mem st) n = status_of self s0 n
                     \<and> status_of self (mem st') n = Some Running
          | Settle n \<Rightarrow> status_of self (mem st) n = Some Running
                     \<and> terminal (status_of self (mem st') n))"
proof (cases e)
  case (Launch name)
  with assms(2) have st': "name \<in> set agent_names" "pc st name = NotStarted"
    "st' = st\<lparr> mem := set_progress self name Running (mem st), pc := (pc st)(name := Awaiting) \<rparr>"
    by (simp_all add: step_Launch del: step.simps)
  from consistent_NotStarted [OF assms(1) st'(2)] st' Launch show ?thesis
    by (simp add: status_of_set_progress)
next
  case (Settle name)
  with assms(2) obtain out where st': "pc st name = Awaiting"
    "st' = st\<lparr> mem := set_progress self name (settled_status out) (mem st),
                     pc := (pc st)(name := Done),
                     settled := (settled st)(name \<mapsto> Inr (settled_value out)) \<rparr>"
    by (auto simp add: step_Settle simp del: step.simps)
  from consistent_Awaiting [OF assms(1) st'(1)] st' Settle show ?thesis
    by (cases out) (simp_all add: status_of_set_progress terminal_def)
qed

lemma done_step:
  assumes "pc st n = Done" and "step self agents e st = Some st'"
  shows "pc st' n = Done \<and> status_of self (mem st') n = status_of self (mem st) n"
proof (cases e)
  case (Launch name)
  with assms show ?thesis
    by (auto simp add: step_Launch status_of_set_progress simp del: step.simps)
next
  case (Settle name)
  with assms show ?thesis
    by (auto simp add: step_Settle status_of_set_progress simp del: step.simps)
qed

lemma done_run_events:
  "pc st n = Done \<Longrightarrow> run_events self agents evs st = Some st' \<Longrightarrow>
   pc st' n = Done \<and> status_of self (mem st') n = status_of self (mem st) n"
proof (induction evs arbitrary: st)
  case Nil
  then show ?case by simp
next
  case (Cons e evs)
  from Cons.prems(2) obtain st1 where s1: "step self agents e st = Some st1"
    and r: "run_events self agents evs st1 = Some st'"
    by (auto split: option.splits)
  from done_step [OF Cons.prems(1) s1] have d: "pc st1 n = Done"
    and eq: "status_of self (mem st1) n = status_of self (mem st) n"
    by simp_all
  from Cons.IH [OF d r] eq show ?case by simp
qed

lemma terminal_is_done:
  assumes "consistent self agents s0 st" and "\<not> terminal (status_of self s0 n)"
    and "terminal (status_of self (mem st) n)"
  shows "pc st n = Done"
proof (cases "pc st n")
  case NotStarted
  from consistent_NotStarted [OF assms(1) this] assms(2,3) show ?thesis by simp
next
  case Awaiting
  from consistent_Awaiting [OF assms(1) this] assms(3) show ?thesis
    by (simp add: terminal_def)
next
  case Done
  then show ?thesis .
qed



lemma providers_outcomes:
  "\<forall>n\<in>set agent_names.
     analyze_async (providers (Finishes t out) n)
       = Some (if n = ''patent_analysis'' then out else Returns (PDict [(''confidence'', PFloat 0.9)]))"
  by (simp add: providers_def analyze_async_def)


text \<open>
  Claim C3. When the provider invocation of a task raises an exception, be it
  the timeout or any other, the dispatcher catches it and puts the degraded
  placeholder, confidence 0.0 with the description of the exception as error, in
  that task's place, and marks the task Failed. The sibling tasks are not
  cancelled: each still contributes the result of its own invocation. The
  exception does not reach the caller of \<^verbatim>\<open>analyze_repurposing_async\<close>: the run
  goes on to synthesis and rendering, and a bundle it returns holds the
  placeholder.
\<close>

theorem task_exception_isolated:
  assumes "name \<in> set agent_names"
    and "behaviour_of env name = Finishes t raised"
    and "failure_description raised = Some msg"
    and "\<forall>n\<in>set agent_names. behaviour_of env n \<noteq> Hangs"
  shows "\<exists>agent_results s' res.
            dispatch self (behaviour_of env) s = Some (agent_results, s')
          \<and> agent_results name = Some (placeholder msg)
          \<and> status_of self s' name = Some Failed
          \<and> (\<forall>n\<in>set agent_names. \<forall>t' out. behaviour_of env n = Finishes t' out \<longrightarrow>
                 agent_results n = Some (settled_value out)
               \<and> status_of self s' n = Some (settled_status out))
          \<and> analyze_repurposing_async self env molecule disease s = Some (res, s')
          \<and> (case res of
                Inr b \<Rightarrow> all_results b name = Some (placeholder msg)
              | Inl (SynthesisFailure e) \<Rightarrow>
                  synthesize_results (runtime env)
                    (assembled env molecule disease agent_results) = Inl e
              | Inl (RendererFailure e) \<Rightarrow>
                  (\<exists>syn. generate_report env molecule disease
                            (assembled env molecule disease agent_results) syn = Inl e))"
proof -
  let ?out = "\<lambda>n. the (analyze_async (behaviour_of env n))"
  let ?all = "\<lambda>n. if n \<in> set agent_names then Some (settled_value (?out n)) else None"
  from dispatch_settled [OF no_hang_outcomes [OF assms(4)], of self s] obtain s' where
    d: "dispatch self (behaviour_of env) s = Some (?all, s')"
    and st: "\<forall>n\<in>set agent_names. status_of self s' n = Some (settled_status (?out n))"
    by blast
  note degraded = settled_failure [OF assms(3)]
  have own: "?all name = Some (placeholder msg)"
    using assms(1,2) degraded by (simp add: analyze_async_def)
  have failed: "status_of self s' name = Some Failed"
    using st assms(1,2) degraded by (simp add: analyze_async_def)
  have sib: "\<forall>n\<in>set agent_names. \<forall>t' out. behaviour_of env n = Finishes t' out \<longrightarrow>
                 ?all n = Some (settled_value out)
               \<and> status_of self s' n = Some (settled_status out)"
    using st by (auto simp: analyze_async_def)
  let ?res = "case synthesize_results (runtime env) (assembled env molecule disease ?all) of
                   Inl e \<Rightarrow> Inl (SynthesisFailure e)
                 | Inr syn \<Rightarrow>
                     (case generate_report env molecule disease
                             (assembled env molecule disease ?all) syn of
                        Inl e \<Rightarrow> Inl (RendererFailure e)
                      | Inr pdf_path \<Rightarrow>
                          Inr \<lparr> all_results = assembled env molecule disease ?all,
                                master_synthesis = syn, pdf_report = pdf_path \<rparr>)"
  have run: "analyze_repurposing_async self env molecule disease s = Some (?res, s')"
    by (rule run_after_dispatch [OF d])
  have "assembled env molecule disease ?all name = Some (placeholder msg)"
    using assembled_agent [OF assms(1)] own by simp
  then have fin: "case ?res of
                Inr b \<Rightarrow> all_results b name = Some (placeholder msg)
              | Inl (SynthesisFailure e) \<Rightarrow>
                  synthesize_results (runtime env)
                    (assembled env molecule disease ?all) = Inl e
              | Inl (RendererFailure e) \<Rightarrow>
                  (\<exists>syn. generate_report env molecule disease
                            (assembled env molecule disease ?all) syn = Inl e)"
    by (auto split: sum.splits)
  from d own failed sib run fin show ?thesis by blast
qed

theorem task_exception_isolated_witness:
  "''patent_analysis'' \<in> set agent_names
   \<and> behaviour_of (example_env (Finishes 2 (Raises ''boom'')) (Inr ''report.pdf'')) ''patent_analysis''
       = Finishes 2 (Raises ''boom'')
   \<and> failure_description (Raises ''boom'') = Some ''boom''
   \<and> list_all
         (\<lambda>n. behaviour_of (example_env (Finishes 2 (Raises ''boom'')) (Inr ''report.pdf'')) n \<noteq> Hangs)
         agent_names
   \<and> (\<exists>agent_results s' res.
          dispatch fresh_agent
            (behaviour_of (example_env (Finishes 2 (Raises ''boom'')) (Inr ''report.pdf''))) fresh_store
            = Some (agent_results, s')
        \<and> agent_results ''patent_analysis''
            = Some (PDict [(''error'', PStr ''boom''), (''confidence'', PFloat 0.0)])
        \<and> status_of fresh_agent s' ''patent_analysis'' = Some Failed
        \<and> agent_results ''clinical_analysis'' = Some (PDict [(''confidence'', PFloat 0.9)])
        \<and> status_of fresh_agent s' ''clinical_analysis'' = Some Complete
        \<and> analyze_repurposing_async fresh_agent
            (example_env (Finishes 2 (Raises ''boom'')) (Inr ''report.pdf''))
            ''aspirin'' ''migraine'' fresh_store = Some (res, s'))"
proof -
  let ?env = "example_env (Finishes 2 (Raises ''boom'')) (Inr ''report.pdf'')"
  have a: "''patent_analysis'' \<in> set agent_names"
    by (simp add: agent_names_def)
  have b: "behaviour_of ?env ''patent_analysis'' = Finishes 2 (Raises ''boom'')"
    by (simp add: example_env_def providers_def)
  have c: "\<forall>n\<in>set agent_names. behaviour_of ?env n \<noteq> Hangs"
    by (simp add: example_env_def providers_def)
  have d: "''clinical_analysis'' \<in> set agent_names"
    by (simp add: agent_names_def)
  have e: "behaviour_of ?env ''clinical_analysis''
             = Finishes 1 (Returns (PDict [(''confidence'', PFloat 0.9)]))"
    by (simp add: example_env_def providers_def)
  have f: "failure_description (Raises ''boom'') = Some ''boom''"
    by simp
  from task_exception_isolated [OF a b f c, of fresh_agent fresh_store "''aspirin''" "''migraine''"]
  obtain agent_results s' res where
    r: "dispatch fresh_agent (behaviour_of ?env) fresh_store = Some (agent_results, s')"
       "agent_results ''patent_analysis'' = Some (placeholder ''boom'')"
       "status_of fresh_agent s' ''patent_analysis'' = Some Failed"
       "\<forall>n\<in>set agent_names. \<forall>t' out. behaviour_of ?env n = Finishes t' out \<longrightarrow>
                 agent_results n = Some (settled_value out)
               \<and> status_of fresh_agent s' n = Some (settled_status out)"
       "analyze_repurposing_async fresh_agent ?env ''aspirin'' ''migraine'' fresh_store = Some (res, s')"
    by blast
  from r(4) d e have "agent_results ''clinical_analysis'' = Some (PDict [(''confidence'', PFloat 0.9)])
        \<and> status_of fresh_agent s' ''clinical_analysis'' = Some Complete"
    by fastforce
  moreover from c have "list_all (\<lambda>n. behaviour_of ?env n \<noteq> Hangs) agent_names"
    by (simp add: list_all_iff)
  ultimately show ?thesis
    using r(1,2,3,5) a b f unfolding placeholder_def by blast
qed

text \<open>
  Claim C4, evaluated on the code. A patent provider that needs 45 seconds and
  then returns is not cut off: the agent classes override \<^verbatim>\<open>analyze_async\<close>
  without the \<^verbatim>\<open>wait_for\<close> of the base class, so the task settles with the
  provider's own result and status Complete, where the base class method would
  have raised the timeout. A provider that never returns keeps the run from
  ever completing.
\<close>

theorem slow_provider_not_timed_out:
  "analyze_async (Finishes 45 (Returns (PDict [(''confidence'', PFloat 0.9)])))
     = Some (Returns (PDict [(''confidence'', PFloat 0.9)]))
   \<and> base_analyze_async (Finishes 45 (Returns (PDict [(''confidence'', PFloat 0.9)])))
     = Some RaisesTimeout
   \<and> (\<exists>agent_results s'.
          dispatch fresh_agent
            (providers (Finishes 45 (Returns (PDict [(''confidence'', PFloat 0.9)])))) fresh_store
            = Some (agent_results, s')
        \<and> agent_results ''patent_analysis'' = Some (PDict [(''confidence'', PFloat 0.9)])
        \<and> agent_results ''patent_analysis'' \<noteq> Some (placeholder ''Timeout'')
        \<and> status_of fresh_agent s' ''patent_analysis'' = Some Complete)
   \<and> dispatch fresh_agent (providers Hangs) fresh_store = None"
proof -
  let ?v = "PDict [(''confidence'', PFloat 0.9)]"
  have p: "''patent_analysis'' \<in> set agent_names"
    by (simp add: agent_names_def)
  from dispatch_settled [OF providers_outcomes, of fresh_agent 45 "Returns ?v" fresh_store]
  obtain s' where
    d: "dispatch fresh_agent (providers (Finishes 45 (Returns ?v))) fresh_store
          = Some (\<lambda>n. if n \<in> set agent_names
                       then Some (settled_value (if n = ''patent_analysis'' then Returns ?v else Returns ?v))
                       else None, s')"
    and st: "\<forall>n\<in>set agent_names. status_of fresh_agent s' n
               = Some (settled_status (if n = ''patent_analysis'' then Returns ?v else Returns ?v))"
    by blast
  from st p have "status_of fresh_agent s' ''patent_analysis'' = Some Complete"
    by simp
  with d p have "\<exists>agent_results s'.
          dispatch fresh_agent (providers (Finishes 45 (Returns ?v))) fresh_store
            = Some (agent_results, s')
        \<and> agent_results ''patent_analysis'' = Some ?v
        \<and> agent_results ''patent_analysis'' \<noteq> Some (placeholder ''Timeout'')
        \<and> status_of fresh_agent s' ''patent_analysis'' = Some Complete"
    by (simp add: placeholder_def)
  moreover have "dispatch fresh_agent (providers Hangs) fresh_store = None"
    by (rule dispatch_hangs [OF p]) (simp add: providers_def)
  moreover have "analyze_async (Finishes 45 (Returns ?v)) = Some (Returns ?v)"
    by (simp add: analyze_async_def)
  moreover have "base_analyze_async (Finishes 45 (Returns ?v)) = Some RaisesTimeout"
    by (simp add: base_analyze_async_def)
  ultimately show ?thesis by blast
qed

text \<open>
  Claim C7. In a run on a newly constructed orchestrator every agent starts as
  Pending; a status changes only for the agent of the current event, from
  Pending to Running when its task is launched and from Running to Complete or
  Failed when it settles; and a status that is Complete or Failed stays as it is
  for the rest of that run.
\<close>

theorem progress_lifecycle:
  assumes "new_master_agent s = (self, s0)"
    and "run_events self agents evs (start s0) = Some st"
  shows "(\<forall>n\<in>set agent_names. status_of self s0 n = Some Pending)
       \<and> (\<forall>e st'. step self agents e st = Some st' \<longrightarrow>
             (\<forall>n. n \<noteq> agent_of e \<longrightarrow> status_of self (mem st') n = status_of self (mem st) n)
           \<and> (case e of
                Launch n \<Rightarrow> status_of self (mem st) n = Some Pending
                         \<and> status_of self (mem st') n = Some Running
              | Settle n \<Rightarrow> status_of self (mem st) n = Some Running
                         \<and> terminal (status_of self (mem st') n)))
       \<and> (\<forall>evs' st' n. run_events self agents evs' st = Some st'
                      \<and> terminal (status_of self (mem st) n) \<longrightarrow>
             status_of self (mem st') n = status_of self (mem st) n)"
proof -
  note fresh = fresh_status [OF assms(1)]
  have c: "consistent self agents s0 st"
    by (rule consistent_run_events [OF consistent_start assms(2)])
  have one: "\<forall>n\<in>set agent_names. status_of self s0 n = Some Pending"
    by (simp add: fresh)
  have two: "(\<forall>n. n \<noteq> agent_of e \<longrightarrow> status_of self (mem st') n = status_of self (mem st) n)
           \<and> (case e of
                Launch n \<Rightarrow> status_of self (mem st) n = Some Pending
                         \<and> status_of self (mem st') n = Some Running
              | Settle n \<Rightarrow> status_of self (mem st) n = Some Running
                         \<and> terminal (status_of self (mem st') n))"
    if "step self agents e st = Some st'" for e st'
    using step_status [OF c that] by (cases e) (simp_all add: fresh)
  have three: "status_of self (mem st') n = status_of self (mem st) n"
    if "run_events self agents evs' st = Some st'" and "terminal (status_of self (mem st) n)"
    for evs' st' n
  proof -
    have "\<not> terminal (status_of self s0 n)"
      by (simp add: fresh terminal_def)
    from terminal_is_done [OF c this that(2)] have "pc st n = Done" .
    from done_run_events [OF this that(1)] show ?thesis by simp
  qed
  from one two three show ?thesis by blast
qed

theorem progress_lifecycle_witness:
  "new_master_agent empty_store = (fresh_agent, fresh_store)
   \<and> (\<exists>st st'.
         run_events fresh_agent (providers (Finishes 2 (Raises ''boom'')))
           [Launch ''patent_analysis'', Launch ''clinical_analysis'', Settle ''patent_analysis'']
           (start fresh_store) = Some st
       \<and> status_of fresh_agent fresh_store ''patent_analysis'' = Some Pending
       \<and> terminal (status_of fresh_agent (mem st) ''patent_analysis'')
       \<and> step fresh_agent (providers (Finishes 2 (Raises ''boom''))) (Settle ''clinical_analysis'') st
           = Some st'
       \<and> status_of fresh_agent (mem st) ''clinical_analysis'' = Some Running
       \<and> terminal (status_of fresh_agent (mem st') ''clinical_analysis'')
       \<and> status_of fresh_agent (mem st') ''patent_analysis''
           = status_of fresh_agent (mem st) ''patent_analysis'')"
proof -
  let ?env = "providers (Finishes 2 (Raises ''boom''))"
  have a: "new_master_agent empty_store = (fresh_agent, fresh_store)"
    by (simp add: fresh_agent_def fresh_store_def)
  obtain st where b: "run_events fresh_agent ?env
           [Launch ''patent_analysis'', Launch ''clinical_analysis'', Settle ''patent_analysis'']
           (start fresh_store) = Some st"
    by (simp add: start_def agent_names_def providers_def analyze_async_def)
  have pcs: "pc st ''clinical_analysis'' = Awaiting"
    using b by (auto simp add: start_def agent_names_def providers_def analyze_async_def)
  obtain st' where s: "step fresh_agent ?env (Settle ''clinical_analysis'') st = Some st'"
    using pcs by (simp add: providers_def analyze_async_def)
  have t: "terminal (status_of fresh_agent (mem st) ''patent_analysis'')"
    using b by (auto simp add: start_def agent_names_def providers_def analyze_async_def
        status_of_set_progress run_agent_launch_def terminal_def)
  have r1: "run_events fresh_agent ?env [Settle ''clinical_analysis''] st = Some st'"
    using s by (simp del: step.simps)
  have p: "''patent_analysis'' \<in> set agent_names"
    by (simp add: agent_names_def)
  from progress_lifecycle [OF a b] p s r1 t
  have "status_of fresh_agent fresh_store ''patent_analysis'' = Some Pending"
    and "status_of fresh_agent (mem st) ''clinical_analysis'' = Some Running
         \<and> terminal (status_of fresh_agent (mem st') ''clinical_analysis'')"
    and "status_of fresh_agent (mem st') ''patent_analysis''
           = status_of fresh_agent (mem st) ''patent_analysis''"
    by (blast, fastforce, blast)
  with a b s t show ?thesis by blast
qed

text \<open>
  Claim C8 as stated: a mapping returned by \<^verbatim>\<open>get_analysis_progress\<close> is not
  altered by later status writes. It fails on the code: the mapping obtained
  before the patent task is launched differs once the task has been launched.
\<close>

theorem progress_snapshot_counterexample:
  "read_dict (run_agent_launch fresh_agent ''patent_analysis'' fresh_store)
     (get_analysis_progress fresh_agent)
   \<noteq> read_dict fresh_store (get_analysis_progress fresh_agent)"
proof
  assume eq: "read_dict (run_agent_launch fresh_agent ''patent_analysis'' fresh_store)
     (get_analysis_progress fresh_agent)
   = read_dict fresh_store (get_analysis_progress fresh_agent)"
  have "read_dict (run_agent_launch fresh_agent ''patent_analysis'' fresh_store)
     (get_analysis_progress fresh_agent) ''patent_analysis'' = Some Running"
    by (simp add: read_dict_def run_agent_launch_def set_progress_def get_analysis_progress_def)
  moreover have "read_dict fresh_store (get_analysis_progress fresh_agent) ''patent_analysis''
                   = Some Pending"
    by (simp add: read_dict_def get_analysis_progress_def fresh_agent_def fresh_store_def
        new_master_agent_def empty_store_def agent_names_def)
  ultimately show False using eq by simp
qed

text \<open>
  Claim C8 as amended. \<^verbatim>\<open>get_analysis_progress\<close> returns the orchestrator's own
  progress dictionary, not a copy: every later status write, for any agent, shows
  in a mapping that was returned before the write.
\<close>

theorem progress_reference_is_live:
  "read_dict (set_progress self name st s) (get_analysis_progress self)
     = (read_dict s (get_analysis_progress self))(name \<mapsto> st)"
  by (simp add: read_dict_def set_progress_def get_analysis_progress_def)




end
